theory Spec2Isabelle
  imports Complex_Main
begin

section \<open>The control window of the microfluidics microscope (src/main.py)\<close>

text \<open>
  The Python exceptions that the slots of \<open>MainWindow\<close> can raise. A slot returns
  \<open>(None, s')\<close> when it returns normally with the window in state \<open>s'\<close>, and
  \<open>(Some e, s')\<close> when it raises \<open>e\<close>, the window being left as \<open>s'\<close>.
\<close>

datatype error = ValueError | TypeError | AttributeError | UnboundLocalError | IndexError

text \<open>
  The attribute \<open>self.D\<close> is assigned twice in \<open>__init__\<close>: a preset string
  (line 180) and then the distance field, a \<open>QLineEdit\<close> (line 316). A value of
  that attribute is therefore a string or a line edit holding its text.
\<close>

datatype pyval = PStr string | PLineEdit string

text \<open>
  The window. \<open>buttons\<close> are the checked states of the 24 checkable buttons in the
  iteration order of the dictionary (\<open>'1'\<close> first); \<open>k\<close>, \<open>b4\<close>, \<open>displayBin\<close>,
  \<open>bc\<close>, \<open>MCL\<close>, \<open>V\<close> are the texts of the widgets of those names;
  \<open>MCLbuttons\<close> are the four direction buttons in the order \<open>-X, +Y, -Y, +X\<close>.
  \<open>coils\<close> is the log of the calls \<open>client.write_coil(j, status)\<close>, \<open>moves\<close> the
  log of the calls \<open>stage.mcl_move(axis, velocity, distance)\<close>; the transports behind
  them are not part of the program. Python floats are idealised as reals. The LED
  button and the serial port take no part in what follows and are left out.
\<close>

record win =
  A :: string
  B :: string
  C :: string
  D :: pyval
  buttons :: "bool list"
  k :: string
  b4 :: string
  displayBin :: string
  bc :: string
  MCLbuttons :: "bool list"
  MCL :: string
  V :: string
  coils :: "(nat \<times> bool) list"
  moves :: "(nat \<times> real \<times> real) list"

type_synonym outcome = "error option \<times> win"

text \<open>Sequencing of two statements: the second runs only if the first did not raise.\<close>

definition and_then :: "outcome \<Rightarrow> (win \<Rightarrow> outcome) \<Rightarrow> outcome" where
  "and_then r f = (case r of (None, s) \<Rightarrow> f s | (Some e, s) \<Rightarrow> (Some e, s))"

text \<open>
  \<open>int(c)\<close> on a one-character string: the value of a decimal digit, ValueError
  (here \<open>None\<close>) on any other character of the 8-bit character set.
\<close>

definition py_int :: "char \<Rightarrow> int option" where
  "py_int c = map_of (zip ''0123456789'' [0, 1, 2, 3, 4, 5, 6, 7, 8, 9]) c"

subsection \<open>getButtonsState (lines 435-449)\<close>

text \<open>\<open>''.join(['1' if x else '0' for x in state])\<close> with \<open>state\<close> the list of
  \<open>int(isChecked())\<close>.\<close>

definition binstring_of :: "bool list \<Rightarrow> string" where
  "binstring_of bs =
     map (\<lambda>x. if x \<noteq> (0::int) then CHR ''1'' else CHR ''0'')
         (map (\<lambda>b. if b then 1 else 0) bs)"

text \<open>The loop \<open>for j in range(len(INPUT)): client.write_coil(j, bool(int(INPUT[j])))\<close>.\<close>

fun write_coils :: "string \<Rightarrow> nat list \<Rightarrow> (nat \<times> bool) list \<Rightarrow> error option \<times> (nat \<times> bool) list" where
  "write_coils INPUT [] written = (None, written)"
| "write_coils INPUT (j # js) written =
     (case py_int (INPUT ! j) of
        None \<Rightarrow> (Some ValueError, written)
      | Some n \<Rightarrow> write_coils INPUT js (written @ [(j, n \<noteq> 0)]))"

definition getButtonsState :: "win \<Rightarrow> outcome" where
  "getButtonsState s =
     (let binstring = binstring_of (buttons s);
          s1 = s\<lparr>displayBin := binstring, b4 := ''OK''\<rparr>;
          (e, written) = write_coils binstring [0..<length binstring] (coils s1)
      in (e, s1\<lparr>coils := written\<rparr>))"

subsection \<open>setButtonsState (lines 453-465) and writeInputCommand\<close>

text \<open>
  The loop over the buttons with the running index \<open>j\<close>: button by button,
  \<open>setChecked(bool(int(inputs[j])))\<close>. When \<open>int\<close> raises, the buttons before
  \<open>j\<close> have been set and the others keep their state.
\<close>

fun setChecked_loop :: "string \<Rightarrow> nat \<Rightarrow> bool list \<Rightarrow> error option \<times> bool list" where
  "setChecked_loop inputs j [] = (None, [])"
| "setChecked_loop inputs j (b # bs) =
     (if length inputs \<le> j then (Some IndexError, b # bs)
      else case py_int (inputs ! j) of
             None \<Rightarrow> (Some ValueError, b # bs)
           | Some n \<Rightarrow> (case setChecked_loop inputs (j + 1) bs of
                          (e, bs') \<Rightarrow> (e, (n \<noteq> 0) # bs')))"

definition setButtonsState :: "win \<Rightarrow> outcome" where
  "setButtonsState s =
     (let inputs = k s in
      if length inputs \<noteq> 24
      then (None, s\<lparr>b4 := ''Error! Require 24-bit binary input'', k := A s\<rparr>)
      else (case setChecked_loop inputs 0 (buttons s) of
              (Some e, bs) \<Rightarrow> (Some e, s\<lparr>buttons := bs\<rparr>)
            | (None, bs) \<Rightarrow>
                and_then (getButtonsState (s\<lparr>buttons := bs\<rparr>))
                         (\<lambda>s'. (None, s'\<lparr>b4 := ''OK''\<rparr>))))"

text \<open>\<open>self.k.setText(inputs)\<close>: \<open>setText\<close> takes a string and raises TypeError on a widget.\<close>

definition writeInputCommand :: "pyval \<Rightarrow> win \<Rightarrow> outcome" where
  "writeInputCommand inputs s =
     (case inputs of
        PStr t \<Rightarrow> (None, s\<lparr>k := t\<rparr>)
      | PLineEdit t \<Rightarrow> (Some TypeError, s))"

subsection \<open>action (lines 417-433)\<close>

text \<open>The payload of a result signal is a Python object: a label, or \<open>None\<close>.\<close>

definition action :: "string option \<Rightarrow> win \<Rightarrow> outcome" where
  "action results s =
     (if results = Some ''A'' then
        and_then (writeInputCommand (PStr (A s)) (s\<lparr>bc := ''A''\<rparr>)) setButtonsState
      else if results = Some ''B'' then
        and_then (writeInputCommand (PStr (B s)) (s\<lparr>bc := ''B''\<rparr>)) setButtonsState
      else if results = Some ''C'' then
        and_then (writeInputCommand (PStr (C s)) (s\<lparr>bc := ''C''\<rparr>)) setButtonsState
      else if results = Some ''D'' then
        and_then (writeInputCommand (D s) (s\<lparr>bc := ''D''\<rparr>)) setButtonsState
      else (None, s))"

subsection \<open>The stage: move and getMCLButtonsState (lines 474-511)\<close>

text \<open>
  \<open>float(self.D.text())\<close>: the attribute must be a line edit (a string has no
  \<open>text\<close>), and its text must parse. Python's \<open>float\<close> on strings is a parameter
  \<open>pyfloat\<close> of the model, \<open>None\<close> where it raises ValueError.
\<close>

definition float_text :: "(string \<Rightarrow> real option) \<Rightarrow> pyval \<Rightarrow> error + real" where
  "float_text pyfloat w =
     (case w of
        PStr t \<Rightarrow> Inl AttributeError
      | PLineEdit t \<Rightarrow> (case pyfloat t of None \<Rightarrow> Inl ValueError | Some x \<Rightarrow> Inr x))"

text \<open>
  The chain of \<open>if\<close>/\<open>elif\<close> binds \<open>axis\<close> and \<open>distance\<close> in four branches and has
  no \<open>else\<close>: \<open>None\<close> stands for the two names left unbound. Then the velocity
  is read, and the call \<open>stage.mcl_move(axis, velocity, distance)\<close> evaluates
  \<open>axis\<close> first. The \<open>print\<close> that ends \<open>move\<close> is left out.
\<close>

definition move_branch :: "(string \<Rightarrow> real option) \<Rightarrow> string \<Rightarrow> win \<Rightarrow> error + (nat \<times> real) option" where
  "move_branch pyfloat INPUT s =
     (if INPUT = ''1000'' then
        (case float_text pyfloat (D s) of Inl e \<Rightarrow> Inl e | Inr x \<Rightarrow> Inr (Some (1, x * (1 / 1000))))
      else if INPUT = ''0001'' then
        (case float_text pyfloat (D s) of Inl e \<Rightarrow> Inl e | Inr x \<Rightarrow> Inr (Some (1, - x * (1 / 1000))))
      else if INPUT = ''0100'' then
        (case float_text pyfloat (D s) of Inl e \<Rightarrow> Inl e | Inr x \<Rightarrow> Inr (Some (2, - x * (1 / 1000))))
      else if INPUT = ''0010'' then
        (case float_text pyfloat (D s) of Inl e \<Rightarrow> Inl e | Inr x \<Rightarrow> Inr (Some (2, x * (1 / 1000))))
      else Inr None)"

definition move :: "(string \<Rightarrow> real option) \<Rightarrow> string \<Rightarrow> win \<Rightarrow> outcome" where
  "move pyfloat INPUT s =
     (case move_branch pyfloat INPUT s of
        Inl e \<Rightarrow> (Some e, s)
      | Inr bound \<Rightarrow>
          (case pyfloat (V s) of
             None \<Rightarrow> (Some ValueError, s)
           | Some velocity \<Rightarrow>
               (case bound of
                  None \<Rightarrow> (Some UnboundLocalError, s)
                | Some (axis, distance) \<Rightarrow>
                    (None, s\<lparr>moves := moves s @ [(axis, velocity, distance)]\<rparr>))))"

text \<open>
  After \<open>self.move(INPUT)\<close> the slot calls \<open>self.resetButtonsState()\<close>; the class
  defines \<open>resetMCLButtonsState\<close> and \<open>resetLEDButtonsState\<close> only, so the lookup
  raises AttributeError.
\<close>

definition getMCLButtonsState :: "(string \<Rightarrow> real option) \<Rightarrow> win \<Rightarrow> outcome" where
  "getMCLButtonsState pyfloat s =
     (let binstring = binstring_of (MCLbuttons s) in
      and_then (move pyfloat binstring (s\<lparr>MCL := binstring\<rparr>))
               (\<lambda>s'. (Some AttributeError, s')))"

definition resetMCLButtonsState :: "win \<Rightarrow> win" where
  "resetMCLButtonsState s = s\<lparr>MCLbuttons := map (\<lambda>b. False) (MCLbuttons s)\<rparr>"

text \<open>
  A click on the checkable direction button \<open>i\<close> (one of the four, \<open>i < 4\<close>)
  toggles it and then emits \<open>clicked\<close>, which is connected to
  \<open>getMCLButtonsState\<close>.
\<close>

definition clickMCL :: "(string \<Rightarrow> real option) \<Rightarrow> nat \<Rightarrow> win \<Rightarrow> outcome" where
  "clickMCL pyfloat i s =
     getMCLButtonsState pyfloat (s\<lparr>MCLbuttons := (MCLbuttons s)[i := \<not> MCLbuttons s ! i]\<rparr>)"

subsection \<open>The window after \<open>__init__\<close> (lines 131-213)\<close>

definition createDfield :: "win \<Rightarrow> win" where
  "createDfield s = s\<lparr>D := PLineEdit ''50''\<rparr>"

definition presets :: win where
  "presets =
     \<lparr>A = ''000000000000000000000000'',
      B = ''111111111111111111111111'',
      C = ''101010101010101010101010'',
      D = PStr ''010101010101010101010101'',
      buttons = replicate 24 False,
      k = ''000000000000000000000000'',
      b4 = ''OK'',
      displayBin = [],
      bc = ''Command'',
      MCLbuttons = [False, False, False, False],
      MCL = [],
      V = ''1'',
      coils = [],
      moves = []\<rparr>"

definition init_win :: win where
  "init_win = resetMCLButtonsState (createDfield (snd (getButtonsState presets)))"

section \<open>Routines on the thread pool (lines 92-125 and 353-414)\<close>

text \<open>
  What a worker thread does, step by step: it emits a signal or it sleeps. The signals
  of \<open>WorkerSignals\<close> that the window connects are \<open>result\<close>, which carries a Python
  object (a label, or \<open>None\<close>), and \<open>finished\<close>.
\<close>

datatype signal = Result "string option" | Finished

datatype instr = Emit signal | Sleep real

text \<open>
  The routines. Their argument \<open>results\<close> is the worker's own \<open>result\<close> signal
  (\<open>self.kwargs['results'] = self.signals.result\<close>), so \<open>results.emit('A')\<close> emits
  \<open>Result (Some ''A'')\<close>. Each returns \<open>None\<close>.
\<close>

definition executefn1 :: "instr list" where
  "executefn1 = concat (replicate 10
     [Emit (Result (Some ''A'')), Sleep 1, Emit (Result (Some ''B'')), Sleep 2])"

definition executefn2 :: "instr list" where
  "executefn2 = concat (replicate 10
     [Emit (Result (Some ''C'')), Sleep 1, Emit (Result (Some ''D'')), Sleep 1])"



text \<open>
  \<open>Worker.run\<close>: the routine, then (the routines do not raise, so the \<open>else\<close> branch
  runs) \<open>self.signals.result.emit(result)\<close> with the routine's return value \<open>None\<close>,
  then \<open>self.signals.finished.emit()\<close>.
\<close>

definition Worker_run :: "instr list \<Rightarrow> instr list" where
  "Worker_run fn = fn @ [Emit (Result None), Emit Finished]"

fun emissions :: "instr list \<Rightarrow> signal list" where
  "emissions [] = []"
| "emissions (Emit sg # p) = sg # emissions p"
| "emissions (Sleep t # p) = emissions p"

text \<open>
  The application: the window, the workers handed to the thread pool and not yet
  finished (in the order of their start, each with what it has left to do), the
  pool's bound on running threads, the signals posted to the window's thread and not
  yet handled (a signal from a pool thread to a slot of the window is queued), and the
  printed lines.
\<close>

record sys =
  gui :: win
  threadpool :: "instr list list"
  maxThreadCount :: nat
  mainq :: "signal list"
  stdout :: "string list"

text \<open>
  \<open>self.threadpool.start(worker)\<close>: the worker runs on a free thread, or waits in the
  pool's queue when \<open>maxThreadCount\<close> threads are busy. Nothing is checked and nothing
  is raised.
\<close>

definition threadpool_start :: "instr list \<Rightarrow> sys \<Rightarrow> sys" where
  "threadpool_start worker sy = sy\<lparr>threadpool := threadpool sy @ [worker]\<rparr>"

definition runfunction1 :: "sys \<Rightarrow> sys" where
  "runfunction1 sy = threadpool_start (Worker_run executefn1) sy"

definition runfunction2 :: "sys \<Rightarrow> sys" where
  "runfunction2 sy = threadpool_start (Worker_run executefn2) sy"



text \<open>
  One step of the worker at position \<open>i\<close> of the pool: the first \<open>maxThreadCount\<close>
  workers run, the others wait. A worker that has nothing left leaves the pool.
\<close>

definition worker_step :: "nat \<Rightarrow> sys \<Rightarrow> sys" where
  "worker_step i sy =
     (let tp = threadpool sy in
      if i < min (maxThreadCount sy) (length tp) then
        (case tp ! i of
           [] \<Rightarrow> sy\<lparr>threadpool := take i tp @ drop (Suc i) tp\<rparr>
         | ins # rest \<Rightarrow>
             (let q = (case ins of Emit sg \<Rightarrow> mainq sy @ [sg] | Sleep t \<Rightarrow> mainq sy)
              in sy\<lparr>threadpool := (if rest = [] then take i tp @ drop (Suc i) tp
                                     else tp[i := rest]),
                     mainq := q\<rparr>))
      else sy)"

definition thread_complete :: "sys \<Rightarrow> sys" where
  "thread_complete sy = sy\<lparr>stdout := stdout sy @ [''Thread complete!'']\<rparr>"

text \<open>
  The window's thread handles the oldest posted signal: \<open>result\<close> is connected to
  \<open>action\<close>, \<open>finished\<close> to \<open>thread_complete\<close>.
\<close>

definition dispatch :: "sys \<Rightarrow> error option \<times> sys" where
  "dispatch sy =
     (case mainq sy of
        [] \<Rightarrow> (None, sy)
      | Result results # q \<Rightarrow>
          (case action results (gui sy) of (e, g) \<Rightarrow> (e, sy\<lparr>gui := g, mainq := q\<rparr>))
      | Finished # q \<Rightarrow> (None, thread_complete (sy\<lparr>mainq := q\<rparr>)))"

fun dispatch_n :: "nat \<Rightarrow> sys \<Rightarrow> error option \<times> sys" where
  "dispatch_n 0 sy = (None, sy)"
| "dispatch_n (Suc n) sy =
     (case dispatch sy of
        (None, sy') \<Rightarrow> dispatch_n n sy'
      | (Some e, sy') \<Rightarrow> (Some e, sy'))"

text \<open>
  A run of the application without further input: a schedule says, step by step,
  whether the worker at some position of the pool moves or the window's thread handles
  a signal. It stops when a slot raises.
\<close>

datatype event = Step nat | Dispatch

fun exec :: "event list \<Rightarrow> sys \<Rightarrow> error option \<times> sys" where
  "exec [] sy = (None, sy)"
| "exec (Step i # es) sy = exec es (worker_step i sy)"
| "exec (Dispatch # es) sy =
     (case dispatch sy of
        (None, sy') \<Rightarrow> exec es sy'
      | (Some e, sy') \<Rightarrow> (Some e, sy'))"

definition init_sys :: "nat \<Rightarrow> sys" where
  "init_sys n = \<lparr>gui = init_win, threadpool = [], maxThreadCount = n, mainq = [], stdout = []\<rparr>"

section \<open>Auxiliary notions for the statements\<close>

definition is_digit :: "char \<Rightarrow> bool" where
  "is_digit c = (c \<in> set ''0123456789'')"

text \<open>What \<open>__init__\<close> establishes: 24 buttons, and the presets \<open>A\<close> (all off)
  and \<open>B\<close> (all on).\<close>

definition win_ok :: "win \<Rightarrow> bool" where
  "win_ok s = (length (buttons s) = 24 \<and> A s = replicate 24 (CHR ''0'')
               \<and> B s = replicate 24 (CHR ''1''))"

text \<open>
  The application with a single worker \<open>W\<close>, started from \<open>sy\<close> with an idle pool,
  when the worker has done \<open>n\<close> steps and the window has handled \<open>m\<close> signals.
\<close>

definition run_state :: "instr list \<Rightarrow> sys \<Rightarrow> nat \<Rightarrow> nat \<Rightarrow> sys" where
  "run_state W sy n m =
     (snd (dispatch_n m (sy\<lparr>mainq := emissions W\<rparr>)))
       \<lparr>threadpool := (if n = length W then [] else [drop n W]),
        mainq := drop m (emissions (take n W))\<rparr>"

section \<open>Facts about the 24 outputs\<close>

lemma py_int_None_iff: "py_int c = None \<longleftrightarrow> \<not> is_digit c"
  by (auto simp: py_int_def is_digit_def)

lemma py_int_nonzero: "py_int c = Some n \<Longrightarrow> (n \<noteq> 0) = (c \<noteq> CHR ''0'')"
  by (auto simp: py_int_def split: if_splits)

lemma binstring_of_alt: "binstring_of bs = map (\<lambda>b. if b then CHR ''1'' else CHR ''0'') bs"
  by (simp add: binstring_of_def)

lemma py_int_binstring:
  "j < length bs \<Longrightarrow> py_int (binstring_of bs ! j) = Some (if bs ! j then 1 else 0)"
  by (simp add: binstring_of_alt py_int_def)

lemma write_coils_binstring:
  "\<forall>j \<in> set js. j < length bs \<Longrightarrow>
   write_coils (binstring_of bs) js written = (None, written @ map (\<lambda>j. (j, bs ! j)) js)"
  by (induction js arbitrary: written) (simp_all add: py_int_binstring)

text \<open>Reading the buttons never raises: the string it builds holds only 0 and 1.\<close>

lemma getButtonsState_eq:
  "getButtonsState s =
     (None, s\<lparr>displayBin := binstring_of (buttons s), b4 := ''OK'',
              coils := coils s @ map (\<lambda>j. (j, buttons s ! j)) [0..<length (buttons s)]\<rparr>)"
proof -
  have len: "length (binstring_of (buttons s)) = length (buttons s)"
    by (simp add: binstring_of_def)
  show ?thesis
    by (simp add: getButtonsState_def Let_def len write_coils_binstring)
qed

text \<open>The loop sets the buttons up to the first character that is not a digit.\<close>

lemma setChecked_loop_eq:
  "j + length bs = length inputs \<Longrightarrow>
   setChecked_loop inputs j bs =
     (let pre = takeWhile is_digit (drop j inputs) in
      if length pre = length bs then (None, map (\<lambda>c. c \<noteq> CHR ''0'') pre)
      else (Some ValueError, map (\<lambda>c. c \<noteq> CHR ''0'') pre @ drop (length pre) bs))"
proof (induction bs arbitrary: j)
  case Nil
  then show ?case by simp
next
  case (Cons b bs)
  then have j: "j < length inputs" and next_len: "(j + 1) + length bs = length inputs"
    by simp_all
  have dr: "drop j inputs = inputs ! j # drop (j + 1) inputs"
    using j by (simp add: Cons_nth_drop_Suc)
  show ?case
  proof (cases "py_int (inputs ! j)")
    case None
    then have nd: "\<not> is_digit (inputs ! j)" by (simp add: py_int_None_iff)
    show ?thesis using j dr None nd by simp
  next
    case (Some n)
    then have dig: "is_digit (inputs ! j)" using py_int_None_iff by force
    have le: "length (takeWhile is_digit (drop (Suc j) inputs)) \<le> length bs"
      using next_len length_takeWhile_le[of is_digit "drop (Suc j) inputs"] by simp
    show ?thesis
      using j dr Some dig Cons.IH[OF next_len] py_int_nonzero[OF Some] le
      by (simp add: Let_def)
  qed
qed

lemma setButtonsState_24:
  assumes "length (k s) = 24" and "length (buttons s) = 24"
  shows "setButtonsState s =
     (let pre = takeWhile is_digit (k s) in
      if length pre = 24
      then (None, s\<lparr>buttons := map (\<lambda>c. c \<noteq> CHR ''0'') (k s),
                     displayBin := binstring_of (map (\<lambda>c. c \<noteq> CHR ''0'') (k s)),
                     b4 := ''OK'',
                     coils := coils s @ map (\<lambda>j. (j, k s ! j \<noteq> CHR ''0'')) [0..<24]\<rparr>)
      else (Some ValueError,
            s\<lparr>buttons := map (\<lambda>c. c \<noteq> CHR ''0'') pre @ drop (length pre) (buttons s)\<rparr>))"
proof -
  have loop: "setChecked_loop (k s) 0 (buttons s) =
     (let pre = takeWhile is_digit (k s) in
      if length pre = 24 then (None, map (\<lambda>c. c \<noteq> CHR ''0'') pre)
      else (Some ValueError, map (\<lambda>c. c \<noteq> CHR ''0'') pre @ drop (length pre) (buttons s)))"
    using setChecked_loop_eq[of 0 "buttons s" "k s"] assms by simp
  show ?thesis
  proof (cases "length (takeWhile is_digit (k s)) = 24")
    case True
    then have all: "takeWhile is_digit (k s) = k s"
      using assms(1) by (metis takeWhile_eq_take take_all order_refl)
    have m: "map (\<lambda>j. (j, map (\<lambda>c. c \<noteq> CHR ''0'') (k s) ! j)) [0..<24]
             = map (\<lambda>j. (j, k s ! j \<noteq> CHR ''0'')) [0..<24]"
      using assms(1) by (intro map_cong) simp_all
    have loop': "setChecked_loop (k s) 0 (buttons s) = (None, map (\<lambda>c. c \<noteq> CHR ''0'') (k s))"
      unfolding loop Let_def all using assms(1) by simp
    have ?thesis if "length (takeWhile is_digit (k s)) = 24"
      using that assms m
      by (simp add: setButtonsState_def loop' Let_def getButtonsState_eq and_then_def)
    then show ?thesis using True by simp
  next
    case False
    then show ?thesis
      using assms by (simp add: setButtonsState_def loop Let_def)
  qed
qed

lemma binstring_of_roundtrip:
  "set inp \<subseteq> {CHR ''0'', CHR ''1''} \<Longrightarrow> binstring_of (map (\<lambda>c. c \<noteq> CHR ''0'') inp) = inp"
  by (induction inp) (auto simp: binstring_of_alt)

lemma bits_are_digits: "set inp \<subseteq> {CHR ''0'', CHR ''1''} \<Longrightarrow> takeWhile is_digit inp = inp"
  by (induction inp) (auto simp: is_digit_def)

lemma takeWhile_all_iff: "length (takeWhile P xs) = length xs \<longleftrightarrow> (\<forall>x\<in>set xs. P x)"
  by (induction xs)
     (auto dest: le_trans[OF _ length_takeWhile_le, of _ P] simp: not_less_eq_eq[symmetric])

lemma init_win_eq:
  "init_win =
     \<lparr>A = ''000000000000000000000000'',
      B = ''111111111111111111111111'',
      C = ''101010101010101010101010'',
      D = PLineEdit ''50'',
      buttons = replicate 24 False,
      k = ''000000000000000000000000'',
      b4 = ''OK'',
      displayBin = ''000000000000000000000000'',
      bc = ''Command'',
      MCLbuttons = [False, False, False, False],
      MCL = [],
      V = ''1'',
      coils = map (\<lambda>j. (j, False)) [0..<24],
      moves = []\<rparr>"
  by (simp add: init_win_def presets_def getButtonsState_eq createDfield_def
      resetMCLButtonsState_def binstring_of_alt eval_nat_numeral)

section \<open>Setting all 24 outputs from the input field\<close>

text \<open>
  C3. When the text of the input field \<open>k\<close> has a length other than 24,
  \<open>setButtonsState\<close> returns without touching the buttons or writing a coil: the
  only changes are the status field \<open>b4\<close>, which shows
  "Error! Require 24-bit binary input" (and so not "OK"), and the input field, which is
  reset to preset \<open>A\<close>.
\<close>

theorem setButtonsState_wrong_length:
  "length inp \<noteq> 24 \<Longrightarrow>
   setButtonsState (s\<lparr>k := inp\<rparr>)
     = (None, s\<lparr>k := A s, b4 := ''Error! Require 24-bit binary input''\<rparr>)
   \<and> buttons (snd (setButtonsState (s\<lparr>k := inp\<rparr>))) = buttons s
   \<and> coils (snd (setButtonsState (s\<lparr>k := inp\<rparr>))) = coils s
   \<and> b4 (snd (setButtonsState (s\<lparr>k := inp\<rparr>))) \<noteq> ''OK''"
  by (simp add: setButtonsState_def)

theorem setButtonsState_wrong_length_witness:
  "length ''0101'' \<noteq> 24
   \<and> setButtonsState (init_win\<lparr>k := ''0101''\<rparr>)
       = (None, init_win\<lparr>k := A init_win, b4 := ''Error! Require 24-bit binary input''\<rparr>)
   \<and> buttons (snd (setButtonsState (init_win\<lparr>k := ''0101''\<rparr>))) = replicate 24 False"
  using setButtonsState_wrong_length [of "''0101''" init_win] by (simp add: init_win_eq)

text \<open>
  C4. For a string \<open>inp\<close> of 24 characters 0 or 1 in the input field, and a window
  with its 24 buttons, \<open>setButtonsState\<close> returns normally, and the binary string read
  back from the buttons is \<open>inp\<close>: as computed from the buttons, as shown in
  \<open>displayBin\<close>, and as shown after a further \<open>getButtonsState\<close>.
\<close>

theorem setButtonsState_roundtrip:
  assumes "length inp = 24" and "set inp \<subseteq> {CHR ''0'', CHR ''1''}" and "length (buttons s) = 24"
  shows "fst (setButtonsState (s\<lparr>k := inp\<rparr>)) = None
       \<and> binstring_of (buttons (snd (setButtonsState (s\<lparr>k := inp\<rparr>)))) = inp
       \<and> displayBin (snd (setButtonsState (s\<lparr>k := inp\<rparr>))) = inp
       \<and> displayBin (snd (getButtonsState (snd (setButtonsState (s\<lparr>k := inp\<rparr>))))) = inp"
  using assms setButtonsState_24[of "s\<lparr>k := inp\<rparr>"]
  by (simp add: bits_are_digits binstring_of_roundtrip getButtonsState_eq)

theorem setButtonsState_roundtrip_witness:
  "fst (setButtonsState (init_win\<lparr>k := ''101010101010101010101011''\<rparr>)) = None
   \<and> displayBin (snd (setButtonsState (init_win\<lparr>k := ''101010101010101010101011''\<rparr>)))
      = ''101010101010101010101011''"
  using setButtonsState_roundtrip [of "''101010101010101010101011''" init_win]
  by (simp add: init_win_eq)

text \<open>
  C9. The input field is checked for its length only. For a text \<open>inp\<close> of 24
  characters: if all of them are decimal digits, the text is accepted and every digit
  other than 0 (so also 2 to 9) checks its button, exactly as 1 does;
  if some character is not a digit, \<open>setButtonsState\<close> raises ValueError with the
  buttons before the first such character already set and the others as they were,
  and with no coil written, \<open>displayBin\<close> and the status not updated. The update is
  therefore not all-or-nothing.
\<close>

theorem setButtonsState_alphabet_unchecked:
  assumes "length inp = 24" and "length (buttons s) = 24"
  shows "((\<forall>c\<in>set inp. is_digit c) \<longrightarrow>
            setButtonsState (s\<lparr>k := inp\<rparr>) =
              (None, s\<lparr>k := inp,
                       buttons := map (\<lambda>c. c \<noteq> CHR ''0'') inp,
                       displayBin := map (\<lambda>c. if c \<noteq> CHR ''0'' then CHR ''1'' else CHR ''0'') inp,
                       b4 := ''OK'',
                       coils := coils s @ map (\<lambda>j. (j, inp ! j \<noteq> CHR ''0'')) [0..<24]\<rparr>))
       \<and> (\<not> (\<forall>c\<in>set inp. is_digit c) \<longrightarrow>
            setButtonsState (s\<lparr>k := inp\<rparr>) =
              (Some ValueError,
               s\<lparr>k := inp,
                  buttons := map (\<lambda>c. c \<noteq> CHR ''0'') (takeWhile is_digit inp)
                             @ drop (length (takeWhile is_digit inp)) (buttons s)\<rparr>))"
proof -
  have iff: "length (takeWhile is_digit inp) = 24 \<longleftrightarrow> (\<forall>c\<in>set inp. is_digit c)"
    using takeWhile_all_iff[of is_digit inp] assms(1) by simp
  have disp: "binstring_of (map (\<lambda>c. c \<noteq> CHR ''0'') inp)
              = map (\<lambda>c. if c \<noteq> CHR ''0'' then CHR ''1'' else CHR ''0'') inp"
    by (simp add: binstring_of_alt)
  have eq: "setButtonsState (s\<lparr>k := inp\<rparr>) =
     (if length (takeWhile is_digit inp) = 24
      then (None, s\<lparr>k := inp,
                     buttons := map (\<lambda>c. c \<noteq> CHR ''0'') inp,
                     displayBin := map (\<lambda>c. if c \<noteq> CHR ''0'' then CHR ''1'' else CHR ''0'') inp,
                     b4 := ''OK'',
                     coils := coils s @ map (\<lambda>j. (j, inp ! j \<noteq> CHR ''0'')) [0..<24]\<rparr>)
      else (Some ValueError,
            s\<lparr>k := inp,
               buttons := map (\<lambda>c. c \<noteq> CHR ''0'') (takeWhile is_digit inp)
                          @ drop (length (takeWhile is_digit inp)) (buttons s)\<rparr>))"
    using setButtonsState_24[of "s\<lparr>k := inp\<rparr>"] assms by (simp add: Let_def disp)
  show ?thesis unfolding eq iff by simp
qed

theorem setButtonsState_alphabet_unchecked_witness:
  "setButtonsState (init_win\<lparr>k := ''200000000000000000000007''\<rparr>) =
     (None, init_win\<lparr>k := ''200000000000000000000007'',
               buttons := True # replicate 22 False @ [True],
               displayBin := ''100000000000000000000001'',
               b4 := ''OK'',
               coils := coils init_win @ (0, True) # map (\<lambda>j. (j, False)) [1..<23] @ [(23, True)]\<rparr>)
   \<and> setButtonsState (init_win\<lparr>k := ''11x000000000000000000000''\<rparr>) =
     (Some ValueError, init_win\<lparr>k := ''11x000000000000000000000'',
                         buttons := True # True # replicate 22 False\<rparr>)"
  using setButtonsState_alphabet_unchecked [of "''200000000000000000000007''" init_win]
        setButtonsState_alphabet_unchecked [of "''11x000000000000000000000''" init_win]
  by (simp add: init_win_eq is_digit_def eval_nat_numeral upt_rec)

section \<open>The stage\<close>

lemma move_branch_other:
  "INPUT \<notin> {''1000'', ''0001'', ''0100'', ''0010''} \<Longrightarrow> move_branch pyfloat INPUT s = Inr None"
  by (simp add: move_branch_def)





lemma binstring_of_Nil: "binstring_of bs = [] \<longleftrightarrow> bs = []"
  by (simp add: binstring_of_alt)

lemma binstring_of_Cons:
  "binstring_of bs = c # cs \<longleftrightarrow>
     (\<exists>b bs'. bs = b # bs' \<and> c = (if b then CHR ''1'' else CHR ''0'') \<and> binstring_of bs' = cs)"
  by (cases bs) (auto simp: binstring_of_alt)

lemma one_hot_buttons:
  "binstring_of bs \<in> {''1000'', ''0001'', ''0100'', ''0010''} \<Longrightarrow>
   bs \<in> {[True, False, False, False], [False, False, False, True],
          [False, True, False, False], [False, False, True, False]}"
  by (auto simp: binstring_of_Cons binstring_of_Nil split: if_splits)

lemma move_ok_one_hot:
  assumes "move pyfloat INPUT s = (None, s')"
  shows "INPUT \<in> {''1000'', ''0001'', ''0100'', ''0010''} \<and> pyfloat (V s) \<noteq> None
         \<and> V s' = V s \<and> MCLbuttons s' = MCLbuttons s"
proof -
  have "INPUT \<in> {''1000'', ''0001'', ''0100'', ''0010''}"
  proof (rule ccontr)
    assume "INPUT \<notin> {''1000'', ''0001'', ''0100'', ''0010''}"
    then have "move_branch pyfloat INPUT s = Inr None" by (rule move_branch_other)
    with assms show False by (simp add: move_def split: option.splits)
  qed
  moreover have "pyfloat (V s) \<noteq> None \<and> V s' = V s \<and> MCLbuttons s' = MCLbuttons s"
    using assms by (auto simp: move_def split: sum.splits option.splits)
  ultimately show ?thesis by simp
qed

lemma getMCLButtonsState_raises:
  "fst (getMCLButtonsState pyfloat s) \<noteq> None
   \<and> MCLbuttons (snd (getMCLButtonsState pyfloat s)) = MCLbuttons s"
  by (auto simp: getMCLButtonsState_def Let_def and_then_def move_def
           split: sum.splits option.splits prod.splits)

text \<open>
  C10. Whenever the move triggered by a click succeeds, \<open>getMCLButtonsState\<close> then
  raises AttributeError (\<open>resetButtonsState\<close> does not exist) and the direction
  buttons stay as they were: the button of the move stays checked. A click on any of
  the other buttons then gives a pattern with two bits set, which is none of the four
  one-hot patterns, and that click ends in UnboundLocalError without a move.
\<close>

theorem getMCLButtonsState_never_resets:
  assumes "move pyfloat (binstring_of (MCLbuttons s)) (s\<lparr>MCL := binstring_of (MCLbuttons s)\<rparr>) = (None, s')"
  shows "getMCLButtonsState pyfloat s = (Some AttributeError, s')
       \<and> MCLbuttons s' = MCLbuttons s
       \<and> (\<forall>j<4. \<not> MCLbuttons s ! j \<longrightarrow>
            binstring_of ((MCLbuttons s')[j := True]) \<notin> {''1000'', ''0001'', ''0100'', ''0010''}
            \<and> clickMCL pyfloat j s'
                = (Some UnboundLocalError,
                   s'\<lparr>MCLbuttons := (MCLbuttons s')[j := True],
                      MCL := binstring_of ((MCLbuttons s')[j := True])\<rparr>))"
proof -
  let ?bin = "binstring_of (MCLbuttons s)"
  from move_ok_one_hot[OF assms]
  have hot: "?bin \<in> {''1000'', ''0001'', ''0100'', ''0010''}"
    and v: "pyfloat (V s') \<noteq> None" and same: "MCLbuttons s' = MCLbuttons s"
    by simp_all
  have first: "getMCLButtonsState pyfloat s = (Some AttributeError, s')"
    using assms by (simp add: getMCLButtonsState_def Let_def and_then_def)
  have next_click: "binstring_of ((MCLbuttons s')[j := True]) \<notin> {''1000'', ''0001'', ''0100'', ''0010''}
            \<and> clickMCL pyfloat j s'
                = (Some UnboundLocalError,
                   s'\<lparr>MCLbuttons := (MCLbuttons s')[j := True],
                      MCL := binstring_of ((MCLbuttons s')[j := True])\<rparr>)"
    if j: "j < 4" and off: "\<not> MCLbuttons s ! j" for j
  proof -
    have two: "binstring_of ((MCLbuttons s)[j := True]) \<notin> {''1000'', ''0001'', ''0100'', ''0010''}"
      using one_hot_buttons[OF hot] j off
      by (auto simp: binstring_of_alt less_Suc_eq numeral_eq_Suc)
    have tog: "(MCLbuttons s')[j := \<not> MCLbuttons s' ! j] = (MCLbuttons s)[j := True]"
      using same off by simp
    have "move pyfloat (binstring_of ((MCLbuttons s)[j := True]))
             (s'\<lparr>MCLbuttons := (MCLbuttons s)[j := True],
                MCL := binstring_of ((MCLbuttons s)[j := True])\<rparr>)
          = (Some UnboundLocalError,
             s'\<lparr>MCLbuttons := (MCLbuttons s)[j := True],
                MCL := binstring_of ((MCLbuttons s)[j := True])\<rparr>)"
      using v by (auto simp: move_def move_branch_other[OF two])
    then show ?thesis
      using two tog same
      by (simp add: clickMCL_def getMCLButtonsState_def Let_def and_then_def)
  qed
  show ?thesis using first same next_click by blast
qed

theorem getMCLButtonsState_never_resets_witness:
  "clickMCL (\<lambda>t. if t = ''50'' then Some 50 else if t = ''1'' then Some 1 else None) 0 init_win
     = (Some AttributeError,
        init_win\<lparr>MCLbuttons := [True, False, False, False], MCL := ''1000'',
                 moves := [(1, 1, 1 / 20)]\<rparr>)
   \<and> clickMCL (\<lambda>t. if t = ''50'' then Some 50 else if t = ''1'' then Some 1 else None) 1
        (init_win\<lparr>MCLbuttons := [True, False, False, False], MCL := ''1000'',
                  moves := [(1, 1, 1 / 20)]\<rparr>)
     = (Some UnboundLocalError,
        init_win\<lparr>MCLbuttons := [True, True, False, False], MCL := ''1100'',
                 moves := [(1, 1, 1 / 20)]\<rparr>)"
proof -
  let ?pf = "\<lambda>t. if t = ''50'' then Some (50::real) else if t = ''1'' then Some 1 else None"
  let ?s1 = "init_win\<lparr>MCLbuttons := [True, False, False, False]\<rparr>"
  let ?s2 = "init_win\<lparr>MCLbuttons := [True, False, False, False], MCL := ''1000'',
                      moves := [(1, 1, 1 / 20)]\<rparr>"
  have ok: "move ?pf (binstring_of (MCLbuttons ?s1)) (?s1\<lparr>MCL := binstring_of (MCLbuttons ?s1)\<rparr>)
            = (None, ?s2)"
    by (simp add: init_win_eq move_def move_branch_def float_text_def binstring_of_alt)
  have click0: "clickMCL ?pf 0 init_win = getMCLButtonsState ?pf ?s1"
    by (simp add: clickMCL_def init_win_eq)
  have first: "getMCLButtonsState ?pf ?s1 = (Some AttributeError, ?s2)"
    using getMCLButtonsState_never_resets [OF ok] by blast
  have "(1::nat) < 4 \<and> \<not> MCLbuttons ?s1 ! 1" by simp
  then have "clickMCL ?pf 1 ?s2
                = (Some UnboundLocalError,
                   ?s2\<lparr>MCLbuttons := (MCLbuttons ?s2)[1 := True],
                       MCL := binstring_of ((MCLbuttons ?s2)[1 := True])\<rparr>)"
    using getMCLButtonsState_never_resets [OF ok] by blast
  then have second: "clickMCL ?pf 1 ?s2
     = (Some UnboundLocalError,
        init_win\<lparr>MCLbuttons := [True, True, False, False], MCL := ''1100'',
                 moves := [(1, 1, 1 / 20)]\<rparr>)"
    by (simp add: binstring_of_alt)
  show ?thesis using click0 first second by simp
qed

section \<open>The handler of routine events\<close>

text \<open>
  C8, as the specification states it, fails: a label outside A, B, C, D is ignored
  without any error. Here the label E on the window after start-up.
\<close>

theorem action_unknown_label_counterexample: "action (Some ''E'') init_win = (None, init_win)"
  by (simp add: action_def)

text \<open>
  C8, amended. For every event value other than the labels A, B, C, D (another
  string, or the \<open>None\<close> that every worker emits when its routine returns),
  \<open>action\<close> returns normally and leaves the window unchanged: the event is silently
  ignored.
\<close>

theorem action_unknown_label_ignored: "results \<notin> {Some ''A'', Some ''B'', Some ''C'', Some ''D''} \<Longrightarrow> action results s = (None, s)"
  by (simp add: action_def)

theorem action_unknown_label_ignored_witness: "action None init_win = (None, init_win) \<and> action (Some ''a'') init_win = (None, init_win)"
  using action_unknown_label_ignored [of None init_win] action_unknown_label_ignored [of "Some ''a''" init_win] by simp

section \<open>Routines: what a worker emits and what the window makes of it\<close>

lemma emissions_append: "emissions (p @ q) = emissions p @ emissions q"
  by (induction p rule: emissions.induct) simp_all

lemma emissions_take_Suc:
  "n < length p \<Longrightarrow> emissions (take (Suc n) p) = emissions (take n p) @ emissions [p ! n]"
  by (simp add: take_Suc_conv_app_nth emissions_append)

lemma worker_step_alone:
  assumes "threadpool sy = [ins # rest]" and "0 < maxThreadCount sy"
  shows "worker_step 0 sy = sy\<lparr>threadpool := (if rest = [] then [] else [rest]),
                                mainq := mainq sy @ emissions [ins]\<rparr>"
  using assms by (cases ins) (simp_all add: worker_step_def Let_def)

lemma worker_alone_steps:
  assumes "threadpool sy = [p]" and "0 < maxThreadCount sy"
  shows "n \<le> length p \<Longrightarrow> p \<noteq> [] \<Longrightarrow>
         (worker_step 0 ^^ n) sy = sy\<lparr>threadpool := (if n = length p then [] else [drop n p]),
                                      mainq := mainq sy @ emissions (take n p)\<rparr>"
proof (induction n)
  case 0
  then show ?case using assms by simp
next
  case (Suc n)
  then have n: "n < length p" by simp
  let ?sy = "sy\<lparr>threadpool := [drop n p], mainq := mainq sy @ emissions (take n p)\<rparr>"
  have before: "(worker_step 0 ^^ n) sy = ?sy"
    using Suc n by simp
  have dr: "drop n p = p ! n # drop (Suc n) p"
    using n by (simp add: Cons_nth_drop_Suc)
  have "worker_step 0 ?sy = ?sy\<lparr>threadpool := (if drop (Suc n) p = [] then [] else [drop (Suc n) p]),
                                 mainq := mainq ?sy @ emissions [p ! n]\<rparr>"
    by (rule worker_step_alone) (use dr assms in simp_all)
  then show ?case
    using before n by (auto simp: emissions_take_Suc)
qed

lemma emissions_executefn1:
  "emissions (Worker_run executefn1)
     = concat (replicate 10 [Result (Some ''A''), Result (Some ''B'')]) @ [Result None, Finished]"
  by (simp add: Worker_run_def executefn1_def emissions_append eval_nat_numeral)

lemma length_Worker_run_executefn1: "length (Worker_run executefn1) = 42"
  by (simp add: Worker_run_def executefn1_def length_concat sum_list_replicate)

lemma run_routine1:
  assumes "threadpool sy = []" and "0 < maxThreadCount sy"
  shows "(worker_step 0 ^^ 42) (runfunction1 sy)
           = sy\<lparr>mainq := mainq sy @ emissions (Worker_run executefn1)\<rparr>"
proof -
  have tp: "threadpool (runfunction1 sy) = [Worker_run executefn1]"
    using assms by (simp add: runfunction1_def threadpool_start_def)
  have ne: "Worker_run executefn1 \<noteq> []" by (simp add: Worker_run_def)
  have "(worker_step 0 ^^ length (Worker_run executefn1)) (runfunction1 sy)
        = (runfunction1 sy)\<lparr>threadpool := [],
              mainq := mainq (runfunction1 sy) @ emissions (Worker_run executefn1)\<rparr>"
    using worker_alone_steps[OF tp _ order_refl ne] assms
    by (simp add: runfunction1_def threadpool_start_def)
  then show ?thesis
    using assms by (simp add: length_Worker_run_executefn1 runfunction1_def threadpool_start_def)
qed

lemma takeWhile_replicate_digit:
  "is_digit c \<Longrightarrow> takeWhile is_digit (replicate n c) = replicate n c"
  by (induction n) simp_all

lemma action_preset:
  assumes "length (buttons s) = 24" and "is_digit c"
  shows "and_then (writeInputCommand (PStr (replicate 24 c)) (s\<lparr>bc := l\<rparr>)) setButtonsState
         = (None, s\<lparr>bc := l, k := replicate 24 c,
                    buttons := replicate 24 (c \<noteq> CHR ''0''),
                    displayBin := replicate 24 (if c \<noteq> CHR ''0'' then CHR ''1'' else CHR ''0''),
                    b4 := ''OK'',
                    coils := coils s @ map (\<lambda>j. (j, c \<noteq> CHR ''0'')) [0..<24]\<rparr>)"
proof -
  let ?s1 = "s\<lparr>bc := l, k := replicate 24 c\<rparr>"
  have w: "writeInputCommand (PStr (replicate 24 c)) (s\<lparr>bc := l\<rparr>) = (None, ?s1)"
    by (simp add: writeInputCommand_def)
  have m: "map (\<lambda>j. (j, replicate 24 c ! j \<noteq> CHR ''0'')) [0..<24]
           = map (\<lambda>j. (j, c \<noteq> CHR ''0'')) [0..<24]"
    by (intro map_cong) simp_all
  have "setButtonsState ?s1 =
     (None, ?s1\<lparr>buttons := replicate 24 (c \<noteq> CHR ''0''),
                displayBin := replicate 24 (if c \<noteq> CHR ''0'' then CHR ''1'' else CHR ''0''),
                b4 := ''OK'',
                coils := coils s @ map (\<lambda>j. (j, c \<noteq> CHR ''0'')) [0..<24]\<rparr>)"
    using setButtonsState_24[of ?s1] assms m
    by (simp add: Let_def takeWhile_replicate_digit binstring_of_alt)
  then show ?thesis by (simp add: w and_then_def)
qed

lemma action_A:
  assumes "win_ok s"
  shows "action (Some ''A'') s
         = (None, s\<lparr>bc := ''A'', k := A s, buttons := replicate 24 False,
                    displayBin := replicate 24 (CHR ''0''), b4 := ''OK'',
                    coils := coils s @ map (\<lambda>j. (j, False)) [0..<24]\<rparr>)"
  using assms action_preset[of s "CHR ''0''" "''A''"]
  by (simp add: action_def win_ok_def is_digit_def)

lemma action_B:
  assumes "win_ok s"
  shows "action (Some ''B'') s
         = (None, s\<lparr>bc := ''B'', k := B s, buttons := replicate 24 True,
                    displayBin := replicate 24 (CHR ''1''), b4 := ''OK'',
                    coils := coils s @ map (\<lambda>j. (j, True)) [0..<24]\<rparr>)"
  using assms action_preset[of s "CHR ''1''" "''B''"]
  by (simp add: action_def win_ok_def is_digit_def)

lemma action_None: "action None s = (None, s)"
  by (simp add: action_def)

lemma dispatch_n_add:
  "dispatch_n (m + n) sy =
     (case dispatch_n m sy of (None, sy') \<Rightarrow> dispatch_n n sy' | (Some e, sy') \<Rightarrow> (Some e, sy'))"
  by (induction m arbitrary: sy) (auto split: prod.splits option.splits)

text \<open>Handling a non-empty run of labels A and B that heads the queue.\<close>

lemma dispatch_labels:
  assumes "set ls \<subseteq> {''A'', ''B''}" and "ls \<noteq> []"
  shows "win_ok (gui sy) \<Longrightarrow> mainq sy = map (\<lambda>l. Result (Some l)) ls @ rest \<Longrightarrow>
     fst (dispatch_n (length ls) sy) = None
     \<and> mainq (snd (dispatch_n (length ls) sy)) = rest
     \<and> threadpool (snd (dispatch_n (length ls) sy)) = threadpool sy
     \<and> stdout (snd (dispatch_n (length ls) sy)) = stdout sy
     \<and> win_ok (gui (snd (dispatch_n (length ls) sy)))
     \<and> bc (gui (snd (dispatch_n (length ls) sy))) = last ls
     \<and> b4 (gui (snd (dispatch_n (length ls) sy))) = ''OK''
     \<and> buttons (gui (snd (dispatch_n (length ls) sy))) = replicate 24 (last ls = ''B'')
     \<and> displayBin (gui (snd (dispatch_n (length ls) sy)))
         = replicate 24 (if last ls = ''B'' then CHR ''1'' else CHR ''0'')"
  using assms
proof (induction ls arbitrary: sy)
  case Nil
  then show ?case by simp
next
  case (Cons l ls)
  from Cons.prems have l: "l = ''A'' \<or> l = ''B''" by auto
  obtain g where d: "dispatch sy = (None, sy\<lparr>gui := g, mainq := map (\<lambda>l. Result (Some l)) ls @ rest\<rparr>)"
    and g: "win_ok g" "bc g = l" "b4 g = ''OK''" "buttons g = replicate 24 (l = ''B'')"
       "displayBin g = replicate 24 (if l = ''B'' then CHR ''1'' else CHR ''0'')"
    using l Cons.prems(1,2)
    by (auto simp: dispatch_def action_A action_B win_ok_def)
  show ?case
  proof (cases "ls = []")
    case True
    then show ?thesis using d g by simp
  next
    case False
    let ?sy1 = "sy\<lparr>gui := g, mainq := map (\<lambda>l. Result (Some l)) ls @ rest\<rparr>"
    have "set ls \<subseteq> {''A'', ''B''}" using Cons.prems by auto
    from Cons.IH[of ?sy1, OF _ _ this False] g(1)
    show ?thesis using d False by simp
  qed
qed

lemma concat_replicate_pair_nth:
  "n < 2 * m \<Longrightarrow> concat (replicate m [a, b]) ! n = (if even n then a else b)"
proof (induction m arbitrary: n)
  case 0
  then show ?case by simp
next
  case (Suc m)
  show ?case
  proof (cases "n < 2")
    case True
    then have "n = 0 \<or> n = 1" by auto
    then show ?thesis by auto
  next
    case False
    then obtain n' where n': "n = Suc (Suc n')" by (metis less_2_cases_iff not0_implies_Suc)
    with Suc.prems have "n' < 2 * m" by simp
    from Suc.IH[OF this] show ?thesis by (simp add: n')
  qed
qed

lemma emissions_executefn1_labels:
  "emissions (Worker_run executefn1)
     = map (\<lambda>l. Result (Some l)) (concat (replicate 10 [''A'', ''B''])) @ [Result None, Finished]"
  by (simp add: Worker_run_def executefn1_def emissions_append eval_nat_numeral)

lemma labels_AB: "set (concat (replicate 10 [''A'', ''B''])) \<subseteq> {''A'', ''B''}"
  by auto

lemma dispatch_worker_step_commute:
  "mainq sy \<noteq> [] \<Longrightarrow>
   dispatch (worker_step i sy) = (fst (dispatch sy), worker_step i (snd (dispatch sy)))"
  by (cases "mainq sy")
     (auto simp: dispatch_def worker_step_def Let_def thread_complete_def
           split: list.splits signal.splits instr.splits prod.splits)

lemma win_ok_init: "win_ok init_win"
  by (simp add: win_ok_def init_win_eq eval_nat_numeral)

lemma dispatch_frame:
  "mainq a = h # qa \<Longrightarrow>
   dispatch (a\<lparr>threadpool := t, mainq := h # q\<rparr>)
     = (fst (dispatch a), (snd (dispatch a))\<lparr>threadpool := t, mainq := q\<rparr>)"
  by (cases h) (auto simp: dispatch_def thread_complete_def split: prod.splits)

lemma dispatch_keeps:
  "threadpool (snd (dispatch sy)) = threadpool sy
   \<and> maxThreadCount (snd (dispatch sy)) = maxThreadCount sy
   \<and> mainq (snd (dispatch sy)) = tl (mainq sy)"
  by (auto simp: dispatch_def thread_complete_def split: list.splits signal.splits prod.splits)

lemma dispatch_n_keeps:
  "fst (dispatch_n m sy) = None \<Longrightarrow>
   threadpool (snd (dispatch_n m sy)) = threadpool sy
   \<and> maxThreadCount (snd (dispatch_n m sy)) = maxThreadCount sy
   \<and> mainq (snd (dispatch_n m sy)) = drop m (mainq sy)"
proof (induction m arbitrary: sy)
  case 0
  then show ?case by simp
next
  case (Suc m)
  obtain e sy' where d: "dispatch sy = (e, sy')" by (cases "dispatch sy")
  with Suc.prems have e: "e = None" by (cases e) simp_all
  have k: "threadpool sy' = threadpool sy" "maxThreadCount sy' = maxThreadCount sy"
      "mainq sy' = tl (mainq sy)"
    using dispatch_keeps[of sy] d by simp_all
  from Suc.prems d e have "fst (dispatch_n m sy') = None" by simp
  from Suc.IH[OF this] show ?case using d e k by (simp add: drop_Suc)
qed

lemma dispatch_n_prefix_ok:
  "fst (dispatch_n (m + n) sy) = None \<Longrightarrow> fst (dispatch_n m sy) = None"
  by (auto simp: dispatch_n_add split: prod.splits option.splits)

lemma dispatch_n_Suc_end:
  "fst (dispatch_n m sy) = None \<Longrightarrow> dispatch_n (Suc m) sy = dispatch (snd (dispatch_n m sy))"
  using dispatch_n_add[of m 1 sy] by (auto split: prod.splits option.splits)

lemma emissions_take_length_le: "length (emissions (take n W)) \<le> length (emissions W)"
proof -
  have "emissions W = emissions (take n W) @ emissions (drop n W)"
    by (metis append_take_drop_id emissions_append)
  then show ?thesis by simp
qed

lemma emissions_take_nth:
  "m < length (emissions (take n W)) \<Longrightarrow> emissions (take n W) ! m = emissions W ! m"
proof -
  assume m: "m < length (emissions (take n W))"
  have "emissions W = emissions (take n W) @ emissions (drop n W)"
    by (metis append_take_drop_id emissions_append)
  then show ?thesis using m by (metis nth_append)
qed

lemma handled_facts:
  assumes "threadpool sy = []"
    and "fst (dispatch_n (length (emissions W)) (sy\<lparr>mainq := emissions W\<rparr>)) = None"
    and "m \<le> length (emissions W)"
  shows "fst (dispatch_n m (sy\<lparr>mainq := emissions W\<rparr>)) = None"
    and "threadpool (snd (dispatch_n m (sy\<lparr>mainq := emissions W\<rparr>))) = []"
    and "maxThreadCount (snd (dispatch_n m (sy\<lparr>mainq := emissions W\<rparr>))) = maxThreadCount sy"
    and "mainq (snd (dispatch_n m (sy\<lparr>mainq := emissions W\<rparr>))) = drop m (emissions W)"
proof -
  let ?S = "sy\<lparr>mainq := emissions W\<rparr>"
  obtain d where "length (emissions W) = m + d"
    using assms(3) le_Suc_ex by blast
  with assms(2) show ok: "fst (dispatch_n m ?S) = None"
    using dispatch_n_prefix_ok[of m d ?S] by simp
  from dispatch_n_keeps[OF ok] assms(1)
  show "threadpool (snd (dispatch_n m ?S)) = []"
    and "maxThreadCount (snd (dispatch_n m ?S)) = maxThreadCount sy"
    and "mainq (snd (dispatch_n m ?S)) = drop m (emissions W)"
    by simp_all
qed

lemma run_state_step:
  assumes "threadpool sy = []"
    and "fst (dispatch_n (length (emissions W)) (sy\<lparr>mainq := emissions W\<rparr>)) = None"
    and "n \<le> length W" and "m \<le> length (emissions (take n W))"
  shows "\<exists>n'. n' \<le> length W \<and> m \<le> length (emissions (take n' W))
              \<and> worker_step i (run_state W sy n m) = run_state W sy n' m"
proof -
  let ?x = "run_state W sy n m"
  have mW: "m \<le> length (emissions W)"
    using assms(4) emissions_take_length_le[of n W] by simp
  have tp: "threadpool ?x = (if n = length W then [] else [drop n W])"
    and mx: "maxThreadCount ?x = maxThreadCount sy"
    and q: "mainq ?x = drop m (emissions (take n W))"
    using handled_facts(3)[OF assms(1,2) mW] by (simp_all add: run_state_def)
  show ?thesis
  proof (cases "i < min (maxThreadCount ?x) (length (threadpool ?x))")
    case False
    then have "worker_step i ?x = ?x" by (auto simp: worker_step_def Let_def)
    then show ?thesis using assms(3,4) by auto
  next
    case True
    then have n: "n < length W" and i: "i = 0" and pos: "0 < maxThreadCount ?x"
      using tp assms(3) by (auto split: if_splits)
    have dr: "drop n W = W ! n # drop (Suc n) W"
      using n by (simp add: Cons_nth_drop_Suc)
    have tp1: "threadpool ?x = [W ! n # drop (Suc n) W]" using tp n dr by simp
    have rest: "(drop (Suc n) W = []) = (Suc n = length W)" using n by auto
    have qq: "drop m (emissions (take n W)) @ emissions [W ! n]
              = drop m (emissions (take (Suc n) W))"
      using assms(4) n by (simp add: emissions_take_Suc)
    have "worker_step 0 ?x = ?x\<lparr>threadpool := (if drop (Suc n) W = [] then [] else [drop (Suc n) W]),
                                 mainq := mainq ?x @ emissions [W ! n]\<rparr>"
      by (rule worker_step_alone[OF tp1 pos])
    then have "worker_step i ?x = run_state W sy (Suc n) m"
      unfolding i q rest qq by (simp add: run_state_def)
    moreover have "m \<le> length (emissions (take (Suc n) W))"
      using assms(4) n by (simp add: emissions_take_Suc)
    ultimately show ?thesis using n by (intro exI[of _ "Suc n"]) simp
  qed
qed

lemma run_state_dispatch:
  assumes "threadpool sy = []"
    and "fst (dispatch_n (length (emissions W)) (sy\<lparr>mainq := emissions W\<rparr>)) = None"
    and "m \<le> length (emissions (take n W))"
  shows "\<exists>m'. m' \<le> length (emissions (take n W))
              \<and> dispatch (run_state W sy n m) = (None, run_state W sy n m')"
proof (cases "m = length (emissions (take n W))")
  case True
  then have "mainq (run_state W sy n m) = []" by (simp add: run_state_def)
  then have "dispatch (run_state W sy n m) = (None, run_state W sy n m)"
    by (simp add: dispatch_def)
  then show ?thesis using assms(3) by blast
next
  case False
  with assms(3) have m: "m < length (emissions (take n W))" by simp
  let ?S = "sy\<lparr>mainq := emissions W\<rparr>"
  let ?H = "snd (dispatch_n m ?S)"
  let ?t = "if n = length W then [] else [drop n W]"
  have mW: "m < length (emissions W)"
    using m emissions_take_length_le[of n W] by simp
  have ok: "fst (dispatch_n m ?S) = None"
    and qH: "mainq ?H = drop m (emissions W)"
    using handled_facts[OF assms(1,2), of m] mW by simp_all
  have ok': "fst (dispatch_n (Suc m) ?S) = None"
    using handled_facts(1)[OF assms(1,2), of "Suc m"] mW by simp
  have hd_x: "drop m (emissions (take n W)) = emissions W ! m # drop (Suc m) (emissions (take n W))"
    using Cons_nth_drop_Suc[OF m] emissions_take_nth[OF m] by simp
  have hd_H: "mainq ?H = emissions W ! m # drop (Suc m) (emissions W)"
    using Cons_nth_drop_Suc[OF mW] qH by simp
  have x: "run_state W sy n m
           = ?H\<lparr>threadpool := ?t, mainq := emissions W ! m # drop (Suc m) (emissions (take n W))\<rparr>"
    by (simp add: run_state_def hd_x)
  have "dispatch (run_state W sy n m)
        = (fst (dispatch ?H), (snd (dispatch ?H))\<lparr>threadpool := ?t,
               mainq := drop (Suc m) (emissions (take n W))\<rparr>)"
    unfolding x by (rule dispatch_frame[OF hd_H])
  also have "dispatch ?H = dispatch_n (Suc m) ?S"
    using dispatch_n_Suc_end[OF ok] by simp
  finally have "dispatch (run_state W sy n m) = (None, run_state W sy n (Suc m))"
    using ok' by (simp add: run_state_def)
  then show ?thesis using m by (intro exI[of _ "Suc m"]) simp
qed

lemma exec_run_state:
  assumes "threadpool sy = []"
    and "fst (dispatch_n (length (emissions W)) (sy\<lparr>mainq := emissions W\<rparr>)) = None"
  shows "n \<le> length W \<Longrightarrow> m \<le> length (emissions (take n W)) \<Longrightarrow>
         \<exists>n' m'. n' \<le> length W \<and> m' \<le> length (emissions (take n' W))
                \<and> exec es (run_state W sy n m) = (None, run_state W sy n' m')"
proof (induction es arbitrary: n m)
  case Nil
  then show ?case by auto
next
  case (Cons ev es)
  show ?case
  proof (cases ev)
    case (Step i)
    from run_state_step[OF assms Cons.prems, of i]
    obtain n1 where n1: "n1 \<le> length W" "m \<le> length (emissions (take n1 W))"
        "worker_step i (run_state W sy n m) = run_state W sy n1 m" by blast
    from Cons.IH[OF n1(1,2)] show ?thesis using Step n1(3) by simp
  next
    case Dispatch
    from run_state_dispatch[OF assms Cons.prems(2)]
    obtain m1 where m1: "m1 \<le> length (emissions (take n W))"
        "dispatch (run_state W sy n m) = (None, run_state W sy n m1)" by blast
    from Cons.IH[OF Cons.prems(1) m1(1)] show ?thesis using Dispatch m1(2) by simp
  qed
qed

lemma exec_single_worker:
  assumes "threadpool sy = []" and "mainq sy = []" and "W \<noteq> []"
    and "fst (dispatch_n (length (emissions W)) (sy\<lparr>mainq := emissions W\<rparr>)) = None"
  shows "fst (exec es (threadpool_start W sy)) = None
       \<and> (\<exists>m\<le>length (emissions W).
            gui (snd (exec es (threadpool_start W sy)))
              = gui (snd (dispatch_n m (sy\<lparr>mainq := emissions W\<rparr>))))"
proof -
  have start: "threadpool_start W sy = run_state W sy 0 0"
    using assms(1,2,3) by (simp add: threadpool_start_def run_state_def)
  from exec_run_state[OF assms(1,4), of 0 0 es]
  obtain n' m' where r: "n' \<le> length W" "m' \<le> length (emissions (take n' W))"
      "exec es (run_state W sy 0 0) = (None, run_state W sy n' m')" by auto
  have "m' \<le> length (emissions W)"
    using r(2) emissions_take_length_le[of n' W] by simp
  moreover have "gui (run_state W sy n' m') = gui (snd (dispatch_n m' (sy\<lparr>mainq := emissions W\<rparr>)))"
    by (simp add: run_state_def)
  ultimately show ?thesis using r(3) start by auto
qed

lemma worker_after_41_steps:
  "mainq ((worker_step 0 ^^ 41) (runfunction1 (init_sys 1)))
     = concat (replicate 10 [Result (Some ''A''), Result (Some ''B'')]) @ [Result None]
   \<and> threadpool ((worker_step 0 ^^ 41) (runfunction1 (init_sys 1))) = [[Emit Finished]]"
proof -
  let ?W = "Worker_run executefn1"
  have tp: "threadpool (runfunction1 (init_sys 1)) = [?W]"
    by (simp add: runfunction1_def threadpool_start_def init_sys_def)
  have ne: "?W \<noteq> []" by (simp add: Worker_run_def)
  have l41: "length (executefn1 @ [Emit (Result None)]) = 41"
    by (simp add: executefn1_def length_concat sum_list_replicate)
  have W: "?W = (executefn1 @ [Emit (Result None)]) @ [Emit Finished]"
    by (simp add: Worker_run_def)
  have tk: "take 41 ?W = executefn1 @ [Emit (Result None)]"
    unfolding W using l41 by (metis append_eq_conv_conj)
  have dr: "drop 41 ?W = [Emit Finished]"
    unfolding W using l41 by (metis append_eq_conv_conj)
  have em: "emissions (executefn1 @ [Emit (Result None)])
            = concat (replicate 10 [Result (Some ''A''), Result (Some ''B'')]) @ [Result None]"
    by (simp add: executefn1_def emissions_append eval_nat_numeral)
  have "(worker_step 0 ^^ 41) (runfunction1 (init_sys 1))
        = (runfunction1 (init_sys 1))\<lparr>threadpool := [drop 41 ?W],
             mainq := mainq (runfunction1 (init_sys 1)) @ emissions (take 41 ?W)\<rparr>"
    using worker_alone_steps[OF tp, of 41] ne
    by (simp add: length_Worker_run_executefn1 runfunction1_def threadpool_start_def init_sys_def)
  then show ?thesis
    by (simp add: tk dr em runfunction1_def threadpool_start_def init_sys_def)
qed

lemma step_exec_eval:
  "exec [Step 0, Dispatch, Step 0, Step 0, Step 0] (runfunction1 (init_sys 1))
   = (None, (init_sys 1)\<lparr>gui := snd (action (Some ''A'') init_win),
                          threadpool := [drop 4 (Worker_run executefn1)],
                          mainq := [Result (Some ''B'')]\<rparr>)"
proof -
  have W: "Worker_run executefn1 = Emit (Result (Some ''A'')) # Sleep 1 # Emit (Result (Some ''B''))
              # Sleep 2 # drop 4 (Worker_run executefn1)"
    and ne: "drop 4 (Worker_run executefn1) \<noteq> []"
    by (simp_all add: Worker_run_def executefn1_def eval_nat_numeral)
  obtain g where a: "action (Some ''A'') init_win = (None, g)"
    using action_A[OF win_ok_init] by simp
  have s0: "runfunction1 (init_sys 1) = (init_sys 1)\<lparr>threadpool := [Emit (Result (Some ''A'')) # Sleep 1 # Emit (Result (Some ''B''))
              # Sleep 2 # drop 4 (Worker_run executefn1)]\<rparr>"
    using W by (simp add: runfunction1_def threadpool_start_def init_sys_def)
  show ?thesis
    unfolding s0 using ne
    by (simp add: worker_step_def Let_def dispatch_def init_sys_def a)
qed

text \<open>
  C2, as the specification states it, fails, on the application as started with one
  pool thread. After its 20 labels the worker of routine 1 emits once more on the result
  signal, which is connected to \<open>action\<close>: \<open>Worker.run\<close> emits the return value
  \<open>None\<close> of the routine there, and only then \<open>finished\<close>; after 41 steps of the
  worker 21 results are posted and \<open>finished\<close> is still to come. And the worker does
  not wait for the window: when A has been emitted and handled and the worker has slept,
  emitted B and gone on to its next sleep, B may still be in the queue and the buttons
  all off.
\<close>

theorem routine1_further_result_counterexample:
  "mainq ((worker_step 0 ^^ 41) (runfunction1 (init_sys 1)))
     = concat (replicate 10 [Result (Some ''A''), Result (Some ''B'')]) @ [Result None]
   \<and> threadpool ((worker_step 0 ^^ 41) (runfunction1 (init_sys 1))) = [[Emit Finished]]
   \<and> mainq (snd (exec [Step 0, Dispatch, Step 0, Step 0, Step 0] (runfunction1 (init_sys 1))))
     = [Result (Some ''B'')]
   \<and> buttons (gui (snd (exec [Step 0, Dispatch, Step 0, Step 0, Step 0] (runfunction1 (init_sys 1)))))
     = replicate 24 False"
  using worker_after_41_steps step_exec_eval action_A[OF win_ok_init]
  by simp

text \<open>
  C2, amended. Routine 1 started on an idle pool (window with its 24 buttons and the
  presets A, B): the worker emits the labels A, B ten times in this order, then one
  result carrying \<open>None\<close>, then \<open>finished\<close>, and leaves the pool, so nothing else
  is emitted. The window's thread handles the posted signals in the order of their
  emission: when it has handled the label number \<open>n + 1\<close>, the buttons and
  \<open>displayBin\<close> are all 0 (label A, \<open>n\<close> even) or all 1 (label B, \<open>n\<close> odd) and
  the status is OK; the result \<open>None\<close> changes nothing in the window; \<open>finished\<close>
  prints the completion line, and the queue is empty. This holds however the steps of
  the worker and of the window's thread interleave: in every schedule no slot raises,
  and the window is always as it is after handling the first \<open>m\<close> of the 22 signals,
  for some \<open>m\<close>.
\<close>

theorem routine1_end_to_end:
  assumes "win_ok (gui sy)" and "threadpool sy = []" and "mainq sy = []"
    and "0 < maxThreadCount sy"
  shows "emissions (Worker_run executefn1)
           = concat (replicate 10 [Result (Some ''A''), Result (Some ''B'')])
             @ [Result None, Finished]
       \<and> (worker_step 0 ^^ 42) (runfunction1 sy)
           = sy\<lparr>mainq := emissions (Worker_run executefn1)\<rparr>
       \<and> (\<forall>n<20.
             fst (dispatch_n (Suc n) (sy\<lparr>mainq := emissions (Worker_run executefn1)\<rparr>)) = None
           \<and> buttons (gui (snd (dispatch_n (Suc n) (sy\<lparr>mainq := emissions (Worker_run executefn1)\<rparr>))))
               = replicate 24 (odd n)
           \<and> displayBin (gui (snd (dispatch_n (Suc n) (sy\<lparr>mainq := emissions (Worker_run executefn1)\<rparr>))))
               = replicate 24 (if odd n then CHR ''1'' else CHR ''0'')
           \<and> b4 (gui (snd (dispatch_n (Suc n) (sy\<lparr>mainq := emissions (Worker_run executefn1)\<rparr>))))
               = ''OK'')
       \<and> fst (dispatch_n 22 (sy\<lparr>mainq := emissions (Worker_run executefn1)\<rparr>)) = None
       \<and> gui (snd (dispatch_n 22 (sy\<lparr>mainq := emissions (Worker_run executefn1)\<rparr>)))
           = gui (snd (dispatch_n 20 (sy\<lparr>mainq := emissions (Worker_run executefn1)\<rparr>)))
       \<and> mainq (snd (dispatch_n 22 (sy\<lparr>mainq := emissions (Worker_run executefn1)\<rparr>))) = []
       \<and> threadpool (snd (dispatch_n 22 (sy\<lparr>mainq := emissions (Worker_run executefn1)\<rparr>))) = []
       \<and> stdout (snd (dispatch_n 22 (sy\<lparr>mainq := emissions (Worker_run executefn1)\<rparr>)))
           = stdout sy @ [''Thread complete!'']
       \<and> (\<forall>es. fst (exec es (runfunction1 sy)) = None
             \<and> (\<exists>m\<le>22. gui (snd (exec es (runfunction1 sy)))
                    = gui (snd (dispatch_n m (sy\<lparr>mainq := emissions (Worker_run executefn1)\<rparr>)))))"
proof -
  let ?ls = "concat (replicate 10 [''A'', ''B''])"
  let ?S = "sy\<lparr>mainq := emissions (Worker_run executefn1)\<rparr>"
  have len: "length ?ls = 20" by (simp add: length_concat sum_list_replicate)
  have run: "(worker_step 0 ^^ 42) (runfunction1 sy) = ?S"
    using run_routine1[OF assms(2,4)] assms(3) by simp
  have each: "fst (dispatch_n (Suc n) ?S) = None
           \<and> buttons (gui (snd (dispatch_n (Suc n) ?S))) = replicate 24 (odd n)
           \<and> displayBin (gui (snd (dispatch_n (Suc n) ?S)))
               = replicate 24 (if odd n then CHR ''1'' else CHR ''0'')
           \<and> b4 (gui (snd (dispatch_n (Suc n) ?S))) = ''OK''" if n: "n < 20" for n
  proof -
    let ?pre = "take (Suc n) ?ls"
    have sub: "set ?pre \<subseteq> {''A'', ''B''}"
      using labels_AB set_take_subset[of "Suc n" ?ls] by blast
    have ne: "?pre \<noteq> []" using len by (simp add: take_Suc_conv_app_nth n)
    have lp: "length ?pre = Suc n" using n len by simp
    have lastp: "last ?pre = (if even n then ''A'' else ''B'')"
      using n len concat_replicate_pair_nth[of n 10 "''A''" "''B''"]
      by (simp add: take_Suc_conv_app_nth)
    have q: "mainq ?S = map (\<lambda>l. Result (Some l)) ?pre
                         @ (map (\<lambda>l. Result (Some l)) (drop (Suc n) ?ls) @ [Result None, Finished])"
      unfolding emissions_executefn1_labels
      by (simp add: map_append[symmetric] del: map_append)
    have w: "win_ok (gui ?S)" using assms(1) by simp
    from dispatch_labels[OF sub ne w q] show ?thesis
      unfolding lp lastp by auto
  qed
  have q20: "mainq ?S = map (\<lambda>l. Result (Some l)) ?ls @ [Result None, Finished]"
    by (simp add: emissions_executefn1_labels)
  have w: "win_ok (gui ?S)" using assms(1) by simp
  have ne: "?ls \<noteq> []" using len by auto
  note after20 = dispatch_labels[OF labels_AB ne w q20, unfolded len]
  obtain S20 where s20: "dispatch_n 20 ?S = (None, S20)"
    and m20: "mainq S20 = [Result None, Finished]"
    and t20: "threadpool S20 = []" and o20: "stdout S20 = stdout sy"
    using after20 assms(2) by (cases "dispatch_n 20 ?S") auto
  have "dispatch_n 2 S20 = (None, S20\<lparr>mainq := [], stdout := stdout sy @ [''Thread complete!'']\<rparr>)"
    using m20 o20
    by (simp add: numeral_2_eq_2 dispatch_def action_None thread_complete_def)
  then have fin: "dispatch_n 22 ?S
       = (None, S20\<lparr>mainq := [], stdout := stdout sy @ [''Thread complete!'']\<rparr>)"
    using dispatch_n_add[of 20 2 ?S] s20 by simp
  have len22: "length (emissions (Worker_run executefn1)) = 22"
    by (simp add: emissions_executefn1 length_concat sum_list_replicate)
  have nonempty: "Worker_run executefn1 \<noteq> []" by (simp add: Worker_run_def)
  have ok22: "fst (dispatch_n (length (emissions (Worker_run executefn1))) ?S) = None"
    unfolding len22 using fin by simp
  have any: "fst (exec es (runfunction1 sy)) = None
             \<and> (\<exists>m\<le>22. gui (snd (exec es (runfunction1 sy))) = gui (snd (dispatch_n m ?S)))" for es
    using exec_single_worker[OF assms(2,3) nonempty ok22, of es]
    unfolding len22 runfunction1_def by simp
  have main: "emissions (Worker_run executefn1)
           = concat (replicate 10 [Result (Some ''A''), Result (Some ''B'')])
             @ [Result None, Finished]
       \<and> (worker_step 0 ^^ 42) (runfunction1 sy) = ?S
       \<and> (\<forall>n<20.
             fst (dispatch_n (Suc n) ?S) = None
           \<and> buttons (gui (snd (dispatch_n (Suc n) ?S))) = replicate 24 (odd n)
           \<and> displayBin (gui (snd (dispatch_n (Suc n) ?S)))
               = replicate 24 (if odd n then CHR ''1'' else CHR ''0'')
           \<and> b4 (gui (snd (dispatch_n (Suc n) ?S))) = ''OK'')
       \<and> fst (dispatch_n 22 ?S) = None
       \<and> gui (snd (dispatch_n 22 ?S)) = gui (snd (dispatch_n 20 ?S))
       \<and> mainq (snd (dispatch_n 22 ?S)) = []
       \<and> threadpool (snd (dispatch_n 22 ?S)) = []
       \<and> stdout (snd (dispatch_n 22 ?S)) = stdout sy @ [''Thread complete!'']"
    using emissions_executefn1 run each fin s20 t20 by simp
  show ?thesis using main any by blast
qed

theorem routine1_end_to_end_witness:
  "(worker_step 0 ^^ 42) (runfunction1 (init_sys 1))
      = (init_sys 1)\<lparr>mainq := emissions (Worker_run executefn1)\<rparr>
   \<and> buttons (gui (snd (dispatch_n (Suc 1) ((init_sys 1)\<lparr>mainq := emissions (Worker_run executefn1)\<rparr>))))
      = replicate 24 True
   \<and> stdout (snd (dispatch_n 22 ((init_sys 1)\<lparr>mainq := emissions (Worker_run executefn1)\<rparr>)))
      = [''Thread complete!'']"
proof -
  have h: "win_ok (gui (init_sys 1))" "threadpool (init_sys 1) = []" "mainq (init_sys 1) = []"
      "0 < maxThreadCount (init_sys 1)"
    by (simp_all add: init_sys_def win_ok_init)
  note r = routine1_end_to_end [OF h]
  have a: "(worker_step 0 ^^ 42) (runfunction1 (init_sys 1))
      = (init_sys 1)\<lparr>mainq := emissions (Worker_run executefn1)\<rparr>"
    using r by blast
  have "\<forall>n<20. buttons (gui (snd (dispatch_n (Suc n)
            ((init_sys 1)\<lparr>mainq := emissions (Worker_run executefn1)\<rparr>)))) = replicate 24 (odd n)"
    using r by blast
  then have b: "buttons (gui (snd (dispatch_n (Suc 1)
            ((init_sys 1)\<lparr>mainq := emissions (Worker_run executefn1)\<rparr>)))) = replicate 24 (odd (1::nat))"
    by (rule allE[of _ 1]) simp
  have c: "stdout (snd (dispatch_n 22 ((init_sys 1)\<lparr>mainq := emissions (Worker_run executefn1)\<rparr>)))
      = stdout (init_sys 1) @ [''Thread complete!'']"
    using r by blast
  have d: "stdout (init_sys 1) = []" by (simp add: init_sys_def)
  show ?thesis using a b c d by simp
qed

section \<open>Starting a routine while another one runs\<close>


lemma dispatch_start_commute:
  "dispatch (threadpool_start w sy) = (fst (dispatch sy), threadpool_start w (snd (dispatch sy)))"
  by (auto simp: dispatch_def threadpool_start_def thread_complete_def
           split: list.splits signal.splits prod.splits)


text \<open>
  C1 on the code: \<open>runfunction2\<close> while routine 1 is running (two threads, routine 1
  has emitted its first label). The start is accepted, the pool holds both workers, and
  the next steps post the events of both runs to the window.
\<close>

theorem second_start_accepted:
  "threadpool (runfunction2 (worker_step 0 (runfunction1 (init_sys 2))))
     = [tl (Worker_run executefn1), Worker_run executefn2]
   \<and> mainq (worker_step 0 (worker_step 0 (worker_step 1
        (runfunction2 (worker_step 0 (runfunction1 (init_sys 2)))))))
     = [Result (Some ''A''), Result (Some ''C''), Result (Some ''B'')]"
  by (simp add: runfunction1_def runfunction2_def threadpool_start_def init_sys_def
      worker_step_def Let_def Worker_run_def executefn1_def executefn2_def eval_nat_numeral)




end
